theory Spec2Isabelle
  imports Main "HOL-Library.Word" "HOL-Library.FSet" "HOL-Library.Char_ord" "HOL-Library.List_Lexorder"
begin

section \<open>The path and session bookkeeping of RestreamServerLib/Server.cpp\<close>

text \<open>
  The development embeds the handlers of \<^verbatim>\<open>Server::Private\<close> that keep the maps
  \<^verbatim>\<open>clients\<close> and \<^verbatim>\<open>paths\<close>: \<^verbatim>\<open>isRecording\<close>, \<^verbatim>\<open>registerPath\<close>, \<^verbatim>\<open>beforePlay\<close>,
  \<^verbatim>\<open>onPlay\<close>, \<^verbatim>\<open>beforeRecord\<close>, \<^verbatim>\<open>onRecord\<close>, \<^verbatim>\<open>onTeardown\<close> and \<^verbatim>\<open>onClientClosed\<close>.
  A handler takes the state and returns the new state together with the list of
  notifications it issued, in the order of the calls, and its result when it has one.
  \<^verbatim>\<open>beforePlay\<close>, whose body only looks the path up and compares, is a function from the
  state to its status code.
\<close>

subsection \<open>Data\<close>

text \<open>
  A \<^verbatim>\<open>const GstRTSPClient*\<close> handed to a handler is the object that raised the signal, so
  it is never null: a client is the address of that object. The field \<^verbatim>\<open>recordClient\<close> is
  the only pointer that can be \<^verbatim>\<open>nullptr\<close>; it is an option, \<open>None\<close> for \<^verbatim>\<open>nullptr\<close>.
  A session id and \<^verbatim>\<open>recordSessionId\<close> are strings; the code uses the empty string for
  "no recording session". \<^verbatim>\<open>unsigned\<close> is a 32-bit word.
\<close>

type_synonym client = nat

record ClientInfo =
  refPaths :: "string fset"

record PathInfo =
  refClients :: "client fset"
  playCount :: "32 word"
  recordClient :: "client option"
  recordSessionId :: string

record Private =
  maxPathsCount :: "32 word"
  maxClientsPerPath :: "32 word"
  clients :: "client \<rightharpoonup> ClientInfo"
  paths :: "string \<rightharpoonup> PathInfo"

text \<open>The parts of \<^verbatim>\<open>GstRTSPUrl\<close> and \<^verbatim>\<open>GstRTSPContext\<close> that the handlers read. The
  token of a context is kept as the string that \<^verbatim>\<open>gst_rtsp_token_get_string\<close> returns for
  the media factory role; \<open>None\<close> is a context without a token.\<close>

record GstRTSPUrl =
  abspath :: string

record GstRTSPContext =
  uri :: GstRTSPUrl
  token :: "string option"

datatype GstRTSPStatusCode = GST_RTSP_STS_OK | GST_RTSP_STS_FORBIDDEN | GST_RTSP_STS_SERVICE_UNAVAILABLE

text \<open>The four notifications, one constructor for each member function that reports a
  transition to the host (\<^verbatim>\<open>firstPlayerConnected\<close>, \<^verbatim>\<open>lastPlayerDisconnected\<close>,
  \<^verbatim>\<open>recorderConnected\<close>, \<^verbatim>\<open>recorderDisconnected\<close>), with the arguments passed on to the
  callback.\<close>

datatype notification =
    FirstPlayerConnected string string
  | LastPlayerDisconnected string
  | RecorderConnected string string
  | RecorderDisconnected string

datatype error = AssertionFailed

text \<open>The state right after construction: both maps empty, the limits as configured.\<close>

definition initial :: "32 word \<Rightarrow> 32 word \<Rightarrow> Private" where
  "initial maxPaths maxClients =
     \<lparr>maxPathsCount = maxPaths, maxClientsPerPath = maxClients,
      clients = Map.empty, paths = Map.empty\<rparr>"

subsection \<open>Handlers\<close>

definition user :: "GstRTSPContext \<Rightarrow> string" where
  "user ctx = (case token ctx of Some role \<Rightarrow> role | None \<Rightarrow> '''')"

text \<open>\<^verbatim>\<open>isRecording\<close> and \<^verbatim>\<open>beforeRecord\<close> are member functions that are not \<^verbatim>\<open>const\<close>.
  They return the state after the call and the notifications issued, next to their result,
  so that what they do to the store can be stated; \<^verbatim>\<open>beforeRecord\<close> goes on from the state
  that \<^verbatim>\<open>isRecording\<close> leaves.\<close>

definition isRecording :: "Private \<Rightarrow> client \<Rightarrow> string \<Rightarrow> Private \<times> notification list \<times> bool" where
  "isRecording s client path =
     (case paths s path of
        None \<Rightarrow> (s, [], False)
      | Some pathInfo \<Rightarrow>
          (s, [], recordClient pathInfo \<noteq> None \<or> recordSessionId pathInfo \<noteq> ''''))"

text \<open>\<^verbatim>\<open>registerPath\<close> returns a reference to the entry of the path; here it returns the
  new state and the value of that entry, and the caller stores the entry back after
  changing it.\<close>

definition registerPath :: "Private \<Rightarrow> client \<Rightarrow> string \<Rightarrow> Private \<times> PathInfo" where
  "registerPath s client path =
     (let clients1 =
            (case clients s client of
               None \<Rightarrow> (clients s)(client \<mapsto> \<lparr>refPaths = {|path|}\<rparr>)
             | Some clientInfo \<Rightarrow>
                 (clients s)(client \<mapsto> clientInfo\<lparr>refPaths := finsert path (refPaths clientInfo)\<rparr>));
          pathInfo =
            (case paths s path of
               None \<Rightarrow> \<lparr>refClients = {|client|}, playCount = 0, recordClient = None,
                         recordSessionId = ''''\<rparr>
             | Some pathInfo0 \<Rightarrow> pathInfo0\<lparr>refClients := finsert client (refClients pathInfo0)\<rparr>)
      in (s\<lparr>clients := clients1, paths := (paths s)(path \<mapsto> pathInfo)\<rparr>, pathInfo))"

definition beforePlay :: "Private \<Rightarrow> client \<Rightarrow> GstRTSPUrl \<Rightarrow> string \<Rightarrow> GstRTSPStatusCode" where
  "beforePlay s client url sessionId =
     (let path = abspath url in
      if maxClientsPerPath s > 0 then
        (case paths s path of
           None \<Rightarrow> GST_RTSP_STS_OK
         | Some pathInfo \<Rightarrow>
             if playCount pathInfo \<ge> maxClientsPerPath s - 1 then GST_RTSP_STS_FORBIDDEN
             else GST_RTSP_STS_OK)
      else GST_RTSP_STS_OK)"

definition onPlay :: "Private \<Rightarrow> client \<Rightarrow> GstRTSPContext \<Rightarrow> string \<Rightarrow> Private \<times> notification list" where
  "onPlay s client ctx sessionId =
     (let path = abspath (uri ctx);
          (s1, pathInfo) = registerPath s client path;
          pathInfo1 = pathInfo\<lparr>playCount := playCount pathInfo + 1\<rparr>
      in (s1\<lparr>paths := (paths s1)(path \<mapsto> pathInfo1)\<rparr>,
          if playCount pathInfo1 = 1 then [FirstPlayerConnected (user ctx) path] else []))"

definition beforeRecord ::
  "Private \<Rightarrow> client \<Rightarrow> GstRTSPUrl \<Rightarrow> string \<Rightarrow> Private \<times> notification list \<times> GstRTSPStatusCode" where
  "beforeRecord s client url sessionId =
     (let (s1, ns1, recording) = isRecording s client (abspath url)
      in if recording then (s1, ns1, GST_RTSP_STS_SERVICE_UNAVAILABLE)
         else (s1, ns1, GST_RTSP_STS_OK))"

definition onRecord :: "Private \<Rightarrow> client \<Rightarrow> GstRTSPContext \<Rightarrow> string \<Rightarrow> Private \<times> notification list" where
  "onRecord s client ctx sessionId =
     (let path = abspath (uri ctx);
          (s1, pathInfo) = registerPath s client path
      in if recordClient pathInfo \<noteq> None \<or> recordSessionId pathInfo \<noteq> ''''
         then (s1, [])
         else (s1\<lparr>paths := (paths s1)(path \<mapsto>
                     pathInfo\<lparr>recordClient := Some client, recordSessionId := sessionId\<rparr>)\<rparr>,
               [RecorderConnected (user ctx) path]))"

definition onTeardown :: "Private \<Rightarrow> client \<Rightarrow> GstRTSPUrl \<Rightarrow> string \<Rightarrow> Private \<times> notification list" where
  "onTeardown s client url sessionId =
     (let path = abspath url in
      case paths s path of
        None \<Rightarrow> (s, [])
      | Some pathInfo \<Rightarrow>
          if recordClient pathInfo = Some client \<and> sessionId = recordSessionId pathInfo
          then (s\<lparr>paths := (paths s)(path \<mapsto>
                      pathInfo\<lparr>recordClient := None, recordSessionId := ''''\<rparr>)\<rparr>,
                [RecorderDisconnected path])
          else if playCount pathInfo > 0
          then (let pathInfo1 = pathInfo\<lparr>playCount := playCount pathInfo - 1\<rparr>
                in (s\<lparr>paths := (paths s)(path \<mapsto> pathInfo1)\<rparr>,
                    if playCount pathInfo1 = 0 then [LastPlayerDisconnected path] else []))
          else (s, []))"

text \<open>
  \<^verbatim>\<open>onClientClosed\<close> runs one loop over \<^verbatim>\<open>refPaths\<close> of the closing client, a
  \<^verbatim>\<open>std::set<std::string>\<close>, which iterates in ascending order. \<open>closedPath\<close> is the body
  of that loop for one path; it changes the map \<^verbatim>\<open>paths\<close> only. The macro \<^verbatim>\<open>assert\<close> comes
  from the C library: it ends the process when its condition is false, unless the file is
  compiled with \<^verbatim>\<open>NDEBUG\<close>, where it does nothing. \<open>ndebug\<close> is that compile-time choice, and
  a failed assertion is the result \<open>Inl AssertionFailed\<close>.
\<close>

definition closedPath ::
  "bool \<Rightarrow> client \<Rightarrow> string \<Rightarrow> (string \<rightharpoonup> PathInfo) \<Rightarrow> error + (string \<rightharpoonup> PathInfo) \<times> notification list" where
  "closedPath ndebug client path ps =
     (case ps path of
        None \<Rightarrow> Inr (ps, [])
      | Some pathInfo0 \<Rightarrow>
          let pathInfo = pathInfo0\<lparr>refClients := refClients pathInfo0 |-| {|client|}\<rparr> in
          if refClients pathInfo = {||} then
            (if recordClient pathInfo = None then
               (if \<not> ndebug \<and> \<not> (playCount pathInfo = 0 \<or> playCount pathInfo = 1)
                then Inl AssertionFailed
                else if playCount pathInfo = 1
                then Inr (ps(path := None), [LastPlayerDisconnected path])
                else Inr (ps(path := None), []))
             else
               (if \<not> ndebug \<and> recordClient pathInfo \<noteq> Some client
                then Inl AssertionFailed
                else Inr (ps(path := None), [RecorderDisconnected path])))
          else
            (let (pathInfo1, ns1) =
                   (if recordClient pathInfo = Some client
                    then (pathInfo\<lparr>recordClient := None, recordSessionId := ''''\<rparr>,
                          [RecorderDisconnected path])
                    else (pathInfo, []))
             in if fcard (refClients pathInfo1) = 1 \<and> recordClient pathInfo1 \<noteq> None then
                  (if \<not> ndebug \<and> \<not> (playCount pathInfo1 = 0 \<or> playCount pathInfo1 = 1)
                   then Inl AssertionFailed
                   else if playCount pathInfo1 = 1
                   then Inr (ps(path \<mapsto> pathInfo1\<lparr>playCount := playCount pathInfo1 - 1\<rparr>),
                             ns1 @ [LastPlayerDisconnected path])
                   else Inr (ps(path \<mapsto> pathInfo1), ns1))
                else Inr (ps(path \<mapsto> pathInfo1), ns1)))"

fun closedPaths ::
  "bool \<Rightarrow> client \<Rightarrow> string list \<Rightarrow> (string \<rightharpoonup> PathInfo) \<Rightarrow> error + (string \<rightharpoonup> PathInfo) \<times> notification list" where
  "closedPaths ndebug client [] ps = Inr (ps, [])"
| "closedPaths ndebug client (path # rest) ps =
     (case closedPath ndebug client path ps of
        Inl e \<Rightarrow> Inl e
      | Inr (ps1, ns1) \<Rightarrow>
          (case closedPaths ndebug client rest ps1 of
             Inl e \<Rightarrow> Inl e
           | Inr (ps2, ns2) \<Rightarrow> Inr (ps2, ns1 @ ns2)))"

definition onClientClosed :: "bool \<Rightarrow> Private \<Rightarrow> client \<Rightarrow> error + Private \<times> notification list" where
  "onClientClosed ndebug s client =
     (case clients s client of
        None \<Rightarrow> Inr (s, [])
      | Some clientInfo \<Rightarrow>
          (case closedPaths ndebug client (sorted_list_of_fset (refPaths clientInfo)) (paths s) of
             Inl e \<Rightarrow> Inl e
           | Inr (ps, ns) \<Rightarrow> Inr (s\<lparr>clients := (clients s)(client := None), paths := ps\<rparr>, ns)))"

subsection \<open>Dispatch of the signals\<close>

text \<open>
  \<^verbatim>\<open>onClientConnected\<close> connects one handler to each signal of a client; it does not touch
  the two maps. An event is one signal raised by the RTSP engine, and \<open>dispatch\<close> calls the
  handler connected to it. The status code of \<^verbatim>\<open>beforePlay\<close> and \<^verbatim>\<open>beforeRecord\<close> goes back
  to the engine. \<open>run\<close> handles a sequence of events one after the other and collects the
  notifications; it stops at a failed assertion.
\<close>

datatype event =
    ClientConnected client
  | PrePlay client GstRTSPUrl string
  | Play client GstRTSPContext string
  | PreRecord client GstRTSPUrl string
  | Record client GstRTSPContext string
  | Teardown client GstRTSPUrl string
  | ClientClosed client

fun dispatch :: "bool \<Rightarrow> Private \<Rightarrow> event \<Rightarrow> error + Private \<times> notification list" where
  "dispatch ndebug s (ClientConnected client) = Inr (s, [])"
| "dispatch ndebug s (PrePlay client url sessionId) = Inr (s, [])"
| "dispatch ndebug s (Play client ctx sessionId) = Inr (onPlay s client ctx sessionId)"
| "dispatch ndebug s (PreRecord client url sessionId) = Inr (s, [])"
| "dispatch ndebug s (Record client ctx sessionId) = Inr (onRecord s client ctx sessionId)"
| "dispatch ndebug s (Teardown client url sessionId) = Inr (onTeardown s client url sessionId)"
| "dispatch ndebug s (ClientClosed client) = onClientClosed ndebug s client"

fun run :: "bool \<Rightarrow> Private \<Rightarrow> event list \<Rightarrow> error + Private \<times> notification list" where
  "run ndebug s [] = Inr (s, [])"
| "run ndebug s (e # es) =
     (case dispatch ndebug s e of
        Inl x \<Rightarrow> Inl x
      | Inr (s1, ns1) \<Rightarrow>
          (case run ndebug s1 es of
             Inl x \<Rightarrow> Inl x
           | Inr (s2, ns2) \<Rightarrow> Inr (s2, ns1 @ ns2)))"

text \<open>
  The engine raises \<^verbatim>\<open>play-request\<close> only after \<^verbatim>\<open>pre-play-request\<close> returned
  \<^verbatim>\<open>GST_RTSP_STS_OK\<close>. \<open>admitted ndebug s ok es\<close> says that the sequence \<open>es\<close>, handled from
  the state \<open>s\<close>, respects this: \<open>ok\<close> is the path of the event just before, when that event
  was a \<open>PrePlay\<close> whose check returned \<^verbatim>\<open>GST_RTSP_STS_OK\<close>, and \<open>None\<close> otherwise; a \<open>Play\<close>
  is accepted only on that path.
\<close>

fun admitted :: "bool \<Rightarrow> Private \<Rightarrow> string option \<Rightarrow> event list \<Rightarrow> bool" where
  "admitted ndebug s ok [] = True"
| "admitted ndebug s ok (e # es) =
     ((case e of Play client ctx sessionId \<Rightarrow> ok = Some (abspath (uri ctx)) | _ \<Rightarrow> True) \<and>
      (case dispatch ndebug s e of
         Inl x \<Rightarrow> True
       | Inr (s1, ns1) \<Rightarrow>
           admitted ndebug s1
             (case e of
                PrePlay client url sessionId \<Rightarrow>
                  if beforePlay s client url sessionId = GST_RTSP_STS_OK then Some (abspath url)
                  else None
              | _ \<Rightarrow> None)
             es))"


subsection \<open>Reading the store\<close>

text \<open>
  The properties below speak of the sets and counters of a client or a path whether or not
  it has an entry: a client without an entry references no path, and a path without an
  entry has no client, no player and no recorder.
\<close>

definition ref_paths :: "Private \<Rightarrow> client \<Rightarrow> string fset" where
  "ref_paths s c = (case clients s c of None \<Rightarrow> {||} | Some clientInfo \<Rightarrow> refPaths clientInfo)"

definition ref_clients :: "Private \<Rightarrow> string \<Rightarrow> client fset" where
  "ref_clients s p = (case paths s p of None \<Rightarrow> {||} | Some pathInfo \<Rightarrow> refClients pathInfo)"

definition play_count :: "Private \<Rightarrow> string \<Rightarrow> 32 word" where
  "play_count s p = (case paths s p of None \<Rightarrow> 0 | Some pathInfo \<Rightarrow> playCount pathInfo)"

definition record_client :: "Private \<Rightarrow> string \<Rightarrow> client option" where
  "record_client s p = (case paths s p of None \<Rightarrow> None | Some pathInfo \<Rightarrow> recordClient pathInfo)"

definition record_session_id :: "Private \<Rightarrow> string \<Rightarrow> string" where
  "record_session_id s p =
     (case paths s p of None \<Rightarrow> '''' | Some pathInfo \<Rightarrow> recordSessionId pathInfo)"

text \<open>The properties of the store: the two views of the references agree; a recording
  session id is there only with a recording client, and the recording client is one of the
  referencing clients; a recording client is there only with a recording session id; a
  path has an entry exactly when some client references it.\<close>

definition views_agree :: "Private \<Rightarrow> bool" where
  "views_agree s = (\<forall>c p. p |\<in>| ref_paths s c \<longleftrightarrow> c |\<in>| ref_clients s p)"

definition recorder_known :: "Private \<Rightarrow> bool" where
  "recorder_known s =
     (\<forall>p. (record_session_id s p \<noteq> '''' \<longrightarrow> record_client s p \<noteq> None) \<and>
          (\<forall>c. record_client s p = Some c \<longrightarrow> c |\<in>| ref_clients s p))"


definition entries_referenced :: "Private \<Rightarrow> bool" where
  "entries_referenced s = (\<forall>p. paths s p \<noteq> None \<longleftrightarrow> ref_clients s p \<noteq> {||})"

subsection \<open>Concrete inputs\<close>

definition url_a :: GstRTSPUrl where
  "url_a = \<lparr>abspath = ''/a''\<rparr>"

definition ctx_a :: GstRTSPContext where
  "ctx_a = \<lparr>uri = url_a, token = None\<rparr>"



definition both_roles_then_closed :: "event list" where
  "both_roles_then_closed = [Play 1 ctx_a ''s1'', Record 1 ctx_a ''s2'', ClientClosed 1]"

definition two_players_closed :: "event list" where
  "two_players_closed =
     [Play 1 ctx_a ''s1'', Play 2 ctx_a ''s2'', ClientClosed 1, ClientClosed 2]"

definition second_player_left :: Private where
  "second_player_left =
     \<lparr>maxPathsCount = 0, maxClientsPerPath = 0,
      clients = [2 \<mapsto> \<lparr>refPaths = {|''/a''|}\<rparr>],
      paths = [''/a'' \<mapsto> \<lparr>refClients = {|2|}, playCount = 2, recordClient = None,
                           recordSessionId = ''''\<rparr>]\<rparr>"

text \<open>The store after one \<^verbatim>\<open>onRecord\<close> of client 1 on \<^verbatim>\<open>/a\<close>. The store in which client 1
  has sent \<open>k\<close> PLAY requests on \<^verbatim>\<open>/a\<close>, and the sequence of \<open>2\<^sup>3\<^sup>2 - 1\<close> such requests.\<close>

definition recording :: Private where
  "recording =
     \<lparr>maxPathsCount = 0, maxClientsPerPath = 0,
      clients = [1 \<mapsto> \<lparr>refPaths = {|''/a''|}\<rparr>],
      paths = [''/a'' \<mapsto> \<lparr>refClients = {|1|}, playCount = 0, recordClient = Some 1,
                           recordSessionId = ''s1''\<rparr>]\<rparr>"

definition playing :: "32 word \<Rightarrow> Private" where
  "playing k =
     \<lparr>maxPathsCount = 0, maxClientsPerPath = 0,
      clients = [1 \<mapsto> \<lparr>refPaths = {|''/a''|}\<rparr>],
      paths = [''/a'' \<mapsto> \<lparr>refClients = {|1|}, playCount = k, recordClient = None,
                           recordSessionId = ''''\<rparr>]\<rparr>"

definition many_plays :: "event list" where
  "many_plays = Play 1 ctx_a ''s1'' # replicate 4294967294 (Play 1 ctx_a ''s1'')"

text \<open>With a limit of 3: two admitted players, and a third check.\<close>

definition two_admitted :: "event list" where
  "two_admitted =
     [PrePlay 1 url_a ''s1'', Play 1 ctx_a ''s1'', PrePlay 2 url_a ''s2'', Play 2 ctx_a ''s2'',
      PrePlay 3 url_a ''s3'']"

definition two_playing :: Private where
  "two_playing =
     \<lparr>maxPathsCount = 0, maxClientsPerPath = 3,
      clients = [1 \<mapsto> \<lparr>refPaths = {|''/a''|}\<rparr>, 2 \<mapsto> \<lparr>refPaths = {|''/a''|}\<rparr>],
      paths = [''/a'' \<mapsto> \<lparr>refClients = {|2, 1|}, playCount = 2, recordClient = None,
                           recordSessionId = ''''\<rparr>]\<rparr>"

subsection \<open>Notions used in the proofs\<close>

text \<open>
  What one pass of the loop of \<^verbatim>\<open>onClientClosed\<close> does to the entry of a path that the
  closing client \<open>c\<close> references, as a relation between the entry before and after: an
  absent entry stays absent; an entry whose only client was \<open>c\<close> is erased; otherwise \<open>c\<close>
  leaves \<^verbatim>\<open>refClients\<close>, the recorder fields are cleared when \<open>c\<close> was the recorder and kept
  when not, and \<^verbatim>\<open>playCount\<close> stays or goes from 1 to 0.
\<close>

definition closed_entry :: "client \<Rightarrow> PathInfo option \<Rightarrow> PathInfo option \<Rightarrow> bool" where
  "closed_entry c po po' =
     (case po of
        None \<Rightarrow> po' = None
      | Some pathInfo \<Rightarrow>
          if refClients pathInfo |-| {|c|} = {||} then po' = None
          else (\<exists>pathInfo'. po' = Some pathInfo' \<and>
                  refClients pathInfo' = refClients pathInfo |-| {|c|} \<and>
                  (if recordClient pathInfo = Some c
                   then recordClient pathInfo' = None \<and> recordSessionId pathInfo' = ''''
                   else recordClient pathInfo' = recordClient pathInfo \<and>
                        recordSessionId pathInfo' = recordSessionId pathInfo) \<and>
                  (playCount pathInfo' = playCount pathInfo \<or>
                   playCount pathInfo = 1 \<and> playCount pathInfo' = 0)))"

definition store_inv :: "Private \<Rightarrow> bool" where
  "store_inv s = (views_agree s \<and> recorder_known s \<and> entries_referenced s)"

text \<open>The player limit holds in a store; and what an accepted check promises for the
  \<^verbatim>\<open>onPlay\<close> that follows it: the path is fresh, or its count is below the limit minus
  one.\<close>

definition bounded :: "Private \<Rightarrow> bool" where
  "bounded s = (\<forall>p. play_count s p \<le> maxClientsPerPath s)"

definition ticket :: "Private \<Rightarrow> string option \<Rightarrow> bool" where
  "ticket s ok =
     (case ok of None \<Rightarrow> True
      | Some p \<Rightarrow> paths s p = None \<or> play_count s p < maxClientsPerPath s - 1)"

section \<open>Properties of the handlers\<close>

subsection \<open>Auxiliary facts\<close>

lemmas views = ref_paths_def ref_clients_def play_count_def record_client_def record_session_id_def

lemma sorted_list_of_fset_single: "sorted_list_of_fset {|x|} = [x]"
  by (simp add: sorted_list_of_fset.rep_eq)

lemma distinct_sorted_list_of_fset: "distinct (sorted_list_of_fset A)"
  by (simp add: sorted_list_of_fset.rep_eq)

text \<open>The rewrite rules that evaluate the handlers on a concrete store.\<close>

lemmas concrete = onPlay_def onRecord_def onTeardown_def registerPath_def onClientClosed_def
  closedPath_def beforePlay_def initial_def ctx_a_def url_a_def user_def Let_def
  sorted_list_of_fset_single finsert_fminus_if fcard_finsert_if

lemma max_word32: "(- 1 :: 32 word) = 4294967295"
  by simp

lemma unat_succ32: "x \<noteq> 4294967295 \<Longrightarrow> unat (x + 1) = unat x + 1" for x :: "32 word"
proof -
  assume "x \<noteq> 4294967295"
  then have "x \<noteq> - 1"
    by (simp only: max_word32 not_False_eq_True)
  then have "1 + x \<noteq> 0"
    by (simp add: eq_neg_iff_add_eq_0 add.commute)
  then show ?thesis
    using unatSuc [of x] by (simp add: add.commute)
qed

lemma unat_pred32: "0 < x \<Longrightarrow> unat (x - 1) = unat x - 1" for x :: "32 word"
  by (simp add: unat_minus_one word_greater_zero_iff)

subsection \<open>The admission check of PLAY\<close>

text \<open>
  Claim C1, as stated: from the empty store with \<^verbatim>\<open>maxClientsPerPath = 2\<close>, two successive
  \<^verbatim>\<open>beforePlay\<close> checks on one fresh path, each followed by its \<^verbatim>\<open>onPlay\<close>, both return
  \<^verbatim>\<open>GST_RTSP_STS_OK\<close>, and only the third returns \<^verbatim>\<open>GST_RTSP_STS_FORBIDDEN\<close>. The second
  check does not return \<^verbatim>\<open>GST_RTSP_STS_OK\<close>: after the first \<^verbatim>\<open>onPlay\<close> the entry exists with
  \<^verbatim>\<open>playCount = 1\<close>, and \<open>1 \<ge> 2 - 1\<close>.
\<close>

theorem beforePlay_second_counterexample:
  "beforePlay (initial 0 2) 1 url_a ''s1'' = GST_RTSP_STS_OK \<and>
   beforePlay (fst (onPlay (initial 0 2) 1 ctx_a ''s1'')) 2 url_a ''s2'' \<noteq> GST_RTSP_STS_OK"
  by (simp add: beforePlay_def onPlay_def registerPath_def Let_def initial_def ctx_a_def url_a_def)

text \<open>
  Claim C1, amended: \<^verbatim>\<open>beforePlay\<close> returns \<^verbatim>\<open>GST_RTSP_STS_FORBIDDEN\<close> exactly when
  \<^verbatim>\<open>maxClientsPerPath\<close> is not 0, the path has an entry and its \<^verbatim>\<open>playCount\<close> is at least
  \<^verbatim>\<open>maxClientsPerPath - 1\<close>, and \<^verbatim>\<open>GST_RTSP_STS_OK\<close> otherwise. From the empty store with
  \<^verbatim>\<open>maxClientsPerPath = 2\<close> the first check on a fresh path returns \<^verbatim>\<open>GST_RTSP_STS_OK\<close>; after
  its \<^verbatim>\<open>onPlay\<close> the second check on that path returns \<^verbatim>\<open>GST_RTSP_STS_FORBIDDEN\<close>, and so
  does a third check after a second \<^verbatim>\<open>onPlay\<close>.
\<close>

theorem beforePlay_rule:
  "beforePlay s client url sessionId =
     (if maxClientsPerPath s \<noteq> 0 \<and>
         (\<exists>pathInfo. paths s (abspath url) = Some pathInfo \<and>
                     maxClientsPerPath s - 1 \<le> playCount pathInfo)
      then GST_RTSP_STS_FORBIDDEN else GST_RTSP_STS_OK) \<and>
   beforePlay (initial 0 2) 1 url_a ''s1'' = GST_RTSP_STS_OK \<and>
   beforePlay (fst (onPlay (initial 0 2) 1 ctx_a ''s1'')) 2 url_a ''s2'' = GST_RTSP_STS_FORBIDDEN \<and>
   beforePlay (fst (onPlay (fst (onPlay (initial 0 2) 1 ctx_a ''s1'')) 2 ctx_a ''s2'')) 3 url_a ''s3''
     = GST_RTSP_STS_FORBIDDEN"
proof -
  have "beforePlay s client url sessionId =
     (if maxClientsPerPath s \<noteq> 0 \<and>
         (\<exists>pathInfo. paths s (abspath url) = Some pathInfo \<and>
                     maxClientsPerPath s - 1 \<le> playCount pathInfo)
      then GST_RTSP_STS_FORBIDDEN else GST_RTSP_STS_OK)"
    by (auto simp: beforePlay_def Let_def word_greater_zero_iff split: option.splits)
  moreover have "beforePlay (initial 0 2) 1 url_a ''s1'' = GST_RTSP_STS_OK"
    by (simp add: beforePlay_def initial_def)
  moreover have
    "beforePlay (fst (onPlay (initial 0 2) 1 ctx_a ''s1'')) 2 url_a ''s2'' = GST_RTSP_STS_FORBIDDEN"
    by (simp add: beforePlay_def onPlay_def registerPath_def Let_def initial_def ctx_a_def url_a_def)
  moreover have
    "beforePlay (fst (onPlay (fst (onPlay (initial 0 2) 1 ctx_a ''s1'')) 2 ctx_a ''s2'')) 3 url_a ''s3''
       = GST_RTSP_STS_FORBIDDEN"
    by (simp add: beforePlay_def onPlay_def registerPath_def Let_def initial_def ctx_a_def url_a_def)
  ultimately show ?thesis
    by simp
qed

theorem beforePlay_rule_witness:
  "maxClientsPerPath (fst (onPlay (initial 0 3) 1 ctx_a ''s1'')) \<noteq> 0 \<and>
   play_count (fst (onPlay (initial 0 3) 1 ctx_a ''s1'')) ''/a'' = 1 \<and>
   beforePlay (fst (onPlay (initial 0 3) 1 ctx_a ''s1'')) 2 url_a ''s2'' = GST_RTSP_STS_OK"
proof -
  define s where "s = fst (onPlay (initial 0 3) 1 ctx_a ''s1'')"
  have p: "paths s (abspath url_a) =
      Some \<lparr>refClients = {|1|}, playCount = 1, recordClient = None, recordSessionId = ''''\<rparr>"
    and m: "maxClientsPerPath s = 3" and c: "play_count s ''/a'' = 1"
    by (simp_all add: s_def concrete play_count_def)
  from beforePlay_rule [of s 2 url_a "''s2''"]
  have "beforePlay s 2 url_a ''s2'' = GST_RTSP_STS_OK"
    by (simp add: p m word_le_nat_alt)
  with m c show ?thesis
    unfolding s_def by simp
qed

subsection \<open>TEARDOWN\<close>

text \<open>
  Claim C2: for every state and every \<^verbatim>\<open>onTeardown(client, path, sessionId)\<close>: when the path
  has no entry, the state is unchanged and nothing is emitted; else when the client is the
  recording client and the session id is the recording session id, both recorder fields are
  cleared, \<^verbatim>\<open>recorderDisconnected(path)\<close> is emitted and \<^verbatim>\<open>playCount\<close> is unchanged; else when
  \<^verbatim>\<open>playCount > 0\<close> it is decremented by one, whoever the client and whatever the session id,
  and \<^verbatim>\<open>lastPlayerDisconnected(path)\<close> is emitted exactly when it reaches 0; else nothing
  changes. In every case the map of clients, the set \<^verbatim>\<open>refPaths\<close> of every client and the set
  \<^verbatim>\<open>refClients\<close> of every path are unchanged, as is every other path.
\<close>

theorem onTeardown_effect:
  assumes "onTeardown s client url sessionId = (s', ns)" and "path = abspath url"
  shows "(if paths s path = None then s' = s \<and> ns = []
          else if record_client s path = Some client \<and> sessionId = record_session_id s path
          then record_client s' path = None \<and> record_session_id s' path = '''' \<and>
               ns = [RecorderDisconnected path] \<and> play_count s' path = play_count s path
          else if play_count s path > 0
          then play_count s' path = play_count s path - 1 \<and>
               unat (play_count s' path) = unat (play_count s path) - 1 \<and>
               ns = (if play_count s' path = 0 then [LastPlayerDisconnected path] else []) \<and>
               record_client s' path = record_client s path \<and>
               record_session_id s' path = record_session_id s path
          else s' = s \<and> ns = []) \<and>
         clients s' = clients s \<and>
         (\<forall>c. ref_paths s' c = ref_paths s c) \<and>
         (\<forall>p. ref_clients s' p = ref_clients s p) \<and>
         (\<forall>p. (paths s' p = None) = (paths s p = None)) \<and>
         (\<forall>p. p \<noteq> path \<longrightarrow> paths s' p = paths s p) \<and>
         maxClientsPerPath s' = maxClientsPerPath s \<and> maxPathsCount s' = maxPathsCount s"
  using assms
  by (auto simp: onTeardown_def Let_def views unat_pred32 split: option.splits if_splits)

theorem onTeardown_effect_witness:
  "paths (fst (onPlay (initial 0 0) 1 ctx_a ''s1'')) ''/a'' \<noteq> None \<and>
   record_client (fst (onPlay (initial 0 0) 1 ctx_a ''s1'')) ''/a'' \<noteq> Some 1 \<and>
   play_count (fst (onPlay (initial 0 0) 1 ctx_a ''s1'')) ''/a'' > 0 \<and>
   play_count (fst (onTeardown (fst (onPlay (initial 0 0) 1 ctx_a ''s1'')) 1 url_a ''s1'')) ''/a'' = 0 \<and>
   snd (onTeardown (fst (onPlay (initial 0 0) 1 ctx_a ''s1'')) 1 url_a ''s1'') =
     [LastPlayerDisconnected ''/a''] \<and>
   ''/b'' \<noteq> ''/a'' \<and>
   paths (fst (onTeardown (fst (onPlay (initial 0 0) 1 ctx_a ''s1'')) 1 url_a ''s1'')) ''/b'' = None"
proof -
  define s where "s = fst (onPlay (initial 0 0) 1 ctx_a ''s1'')"
  obtain s' ns where h: "onTeardown s 1 url_a ''s1'' = (s', ns)"
    by (cases "onTeardown s 1 url_a ''s1''")
  have p: "''/a'' = abspath url_a"
    by (simp add: url_a_def)
  note t = onTeardown_effect [OF h p]
  have e: "paths s ''/a'' \<noteq> None" "record_client s ''/a'' = None" "play_count s ''/a'' = 1"
    "paths s ''/b'' = None"
    by (simp_all add: s_def onPlay_def registerPath_def Let_def initial_def ctx_a_def url_a_def
        record_client_def play_count_def)
  from t e have "play_count s' ''/a'' = 0" and "ns = [LastPlayerDisconnected ''/a'']"
    and "paths s' ''/b'' = None"
    by simp_all
  then show ?thesis
    unfolding s_def [symmetric] using h e by simp
qed

subsection \<open>PLAY\<close>

text \<open>One client that sends PLAY again and again on its path: the counter follows, as long
  as it stays below \<open>2\<^sup>3\<^sup>2\<close>.\<close>

lemma onPlay_playing:
  "k \<noteq> 0 \<Longrightarrow> onPlay (playing k) 1 ctx_a sid = (playing (k + 1), [])"
  by (simp add: playing_def onPlay_def registerPath_def Let_def ctx_a_def url_a_def)

lemma run_playing:
  "0 < unat k \<Longrightarrow> unat k + n < 4294967296 \<Longrightarrow>
   run nd (playing k) (replicate n (Play 1 ctx_a sid)) = Inr (playing (k + of_nat n), [])"
proof (induction n arbitrary: k)
  case 0
  then show ?case by simp
next
  case (Suc n)
  from Suc.prems have k: "k \<noteq> 0"
    by auto
  from Suc.prems have "unat k < 4294967295"
    by simp
  then have "k \<noteq> 4294967295"
    by auto
  then have u: "unat (k + 1) = unat k + 1"
    by (rule unat_succ32)
  with Suc.prems have "0 < unat (k + 1)" and "unat (k + 1) + n < 4294967296"
    by simp_all
  from Suc.IH [OF this] onPlay_playing [OF k, of sid] show ?case
    by (simp add: ac_simps)
qed

text \<open>
  Claim C4, as stated: for every state, \<^verbatim>\<open>onPlay\<close> increases \<^verbatim>\<open>playCount\<close> of the path by
  exactly one. The counter is an \<^verbatim>\<open>unsigned\<close>. After \<open>2\<^sup>3\<^sup>2 - 1\<close> PLAY requests of
  one client on one path, with no limit configured, it is \<open>2\<^sup>3\<^sup>2 - 1\<close>, and the next
  \<^verbatim>\<open>onPlay\<close> takes it to 0 and emits nothing.
\<close>

theorem onPlay_wrap_counterexample:
  "run False (initial 0 0) many_plays =
     Inr (playing 4294967295, [FirstPlayerConnected '''' ''/a'']) \<and>
   play_count (playing 4294967295) ''/a'' = 4294967295 \<and>
   play_count (fst (onPlay (playing 4294967295) 1 ctx_a ''s1'')) ''/a'' = 0 \<and>
   snd (onPlay (playing 4294967295) 1 ctx_a ''s1'') = []"
proof -
  have first: "dispatch False (initial 0 0) (Play 1 ctx_a ''s1'') =
      Inr (playing 1, [FirstPlayerConnected '''' ''/a''])"
    by (simp add: playing_def concrete)
  have "run False (playing 1) (replicate 4294967294 (Play 1 ctx_a ''s1'')) =
      Inr (playing (1 + of_nat 4294967294), [])"
    by (rule run_playing) simp_all
  moreover have "1 + of_nat 4294967294 = (4294967295 :: 32 word)"
    by simp
  ultimately have rest: "run False (playing 1) (replicate 4294967294 (Play 1 ctx_a ''s1'')) =
      Inr (playing 4294967295, [])"
    by (simp only:)
  have "run False (initial 0 0) many_plays =
      Inr (playing 4294967295, [FirstPlayerConnected '''' ''/a''])"
    unfolding many_plays_def
    by (simp only: run.simps first rest sum.case prod.case append_Nil2)
  moreover have "play_count (playing 4294967295) ''/a'' = 4294967295"
    by (simp add: playing_def play_count_def)
  moreover have "play_count (fst (onPlay (playing 4294967295) 1 ctx_a ''s1'')) ''/a'' = 0"
    and "snd (onPlay (playing 4294967295) 1 ctx_a ''s1'') = []"
    by (simp_all add: playing_def play_count_def concrete)
  ultimately show ?thesis
    by (simp only: simp_thms)
qed

text \<open>
  Claim C4, amended: for every state and every \<^verbatim>\<open>onPlay(client, ctx, sessionId)\<close> on the path
  of the context: the reference between client and path is registered on both sides, with
  the missing entries created; \<^verbatim>\<open>playCount\<close> of the path increases by one in unsigned 32-bit
  arithmetic, which is by exactly one as a number unless it was \<open>2\<^sup>3\<^sup>2 - 1\<close>, where it
  becomes 0; \<^verbatim>\<open>firstPlayerConnected(user(ctx), path)\<close> is emitted once when the incremented
  \<^verbatim>\<open>playCount\<close> is 1 and nothing is emitted otherwise; no other path entry and no other
  client entry changes.
\<close>

theorem onPlay_effect:
  assumes "onPlay s client ctx sessionId = (s', ns)" and "path = abspath (uri ctx)"
  shows "ref_paths s' client = finsert path (ref_paths s client) \<and>
         ref_clients s' path = finsert client (ref_clients s path) \<and>
         clients s' client \<noteq> None \<and> paths s' path \<noteq> None \<and>
         play_count s' path = play_count s path + 1 \<and>
         (play_count s path \<noteq> 4294967295 \<longrightarrow>
            unat (play_count s' path) = unat (play_count s path) + 1) \<and>
         (play_count s path = 4294967295 \<longrightarrow> play_count s' path = 0) \<and>
         ns = (if play_count s' path = 1 then [FirstPlayerConnected (user ctx) path] else []) \<and>
         record_client s' path = record_client s path \<and>
         record_session_id s' path = record_session_id s path \<and>
         (\<forall>c. c \<noteq> client \<longrightarrow> clients s' c = clients s c) \<and>
         (\<forall>p. p \<noteq> path \<longrightarrow> paths s' p = paths s p) \<and>
         maxClientsPerPath s' = maxClientsPerPath s \<and> maxPathsCount s' = maxPathsCount s"
  using assms
  by (auto simp: onPlay_def registerPath_def Let_def views unat_succ32 split: option.splits if_splits)

theorem onPlay_effect_witness:
  "play_count (initial 0 0) ''/a'' \<noteq> 4294967295 \<and>
   unat (play_count (fst (onPlay (initial 0 0) 1 ctx_a ''s1'')) ''/a'') = 1 \<and>
   snd (onPlay (initial 0 0) 1 ctx_a ''s1'') = [FirstPlayerConnected '''' ''/a''] \<and>
   (2 :: client) \<noteq> 1 \<and> clients (fst (onPlay (initial 0 0) 1 ctx_a ''s1'')) 2 = None \<and>
   ''/b'' \<noteq> ''/a'' \<and> paths (fst (onPlay (initial 0 0) 1 ctx_a ''s1'')) ''/b'' = None"
proof -
  obtain s' ns where h: "onPlay (initial 0 0) 1 ctx_a ''s1'' = (s', ns)"
    by (cases "onPlay (initial 0 0) 1 ctx_a ''s1''")
  have p: "''/a'' = abspath (uri ctx_a)"
    by (simp add: ctx_a_def url_a_def)
  note t = onPlay_effect [OF h p]
  have n: "play_count (initial 0 0) ''/a'' = 0"
    by (simp add: play_count_def initial_def)
  have u: "user ctx_a = ''''"
    by (simp add: user_def ctx_a_def)
  from t n have c: "unat (play_count s' ''/a'') = 1" "play_count s' ''/a'' = 1"
    by simp_all
  from c t u have "ns = [FirstPlayerConnected '''' ''/a'']"
    by simp
  moreover from t have "clients s' 2 = None" and "paths s' ''/b'' = None"
    by (simp_all add: initial_def)
  ultimately show ?thesis
    using h n c by simp
qed

subsection \<open>Closing a client without an entry\<close>

text \<open>
  Claim C10: for every state, \<^verbatim>\<open>onClientClosed\<close> of a client without an entry in \<^verbatim>\<open>clients\<close>
  leaves the whole store as it is, both maps, emits nothing and fails no assertion.
\<close>

theorem onClientClosed_unknown_client:
  "clients s client = None \<Longrightarrow> onClientClosed ndebug s client = Inr (s, [])"
  by (simp add: onClientClosed_def)

theorem onClientClosed_unknown_client_witness:
  "clients (fst (onPlay (initial 0 0) 1 ctx_a ''s1'')) 2 = None \<and>
   onClientClosed False (fst (onPlay (initial 0 0) 1 ctx_a ''s1'')) 2 =
     Inr (fst (onPlay (initial 0 0) 1 ctx_a ''s1''), [])"
proof -
  have h: "clients (fst (onPlay (initial 0 0) 1 ctx_a ''s1'')) 2 = None"
    by (simp add: onPlay_def registerPath_def initial_def Let_def)
  from onClientClosed_unknown_client [OF h, of False] h show ?thesis
    by simp
qed

subsection \<open>The loop of onClientClosed\<close>

lemma closedPath_other:
  "closedPath nd c p ps = Inr (ps', ns) \<Longrightarrow> q \<noteq> p \<Longrightarrow> ps' q = ps q"
  by (auto simp: closedPath_def Let_def split: option.splits if_splits prod.splits)

lemma closedPath_entry:
  "closedPath nd c p ps = Inr (ps', ns) \<Longrightarrow> closed_entry c (ps p) (ps' p)"
  by (auto simp: closedPath_def closed_entry_def Let_def split: option.splits if_splits prod.splits)

lemma closedPaths_other:
  "closedPaths nd c xs ps = Inr (ps', ns) \<Longrightarrow> q \<notin> set xs \<Longrightarrow> ps' q = ps q"
proof (induction xs arbitrary: ps ns)
  case Nil
  then show ?case by simp
next
  case (Cons x xs)
  from Cons.prems obtain ps1 ns1 ns2 where
    a: "closedPath nd c x ps = Inr (ps1, ns1)" and b: "closedPaths nd c xs ps1 = Inr (ps', ns2)"
    by (auto split: sum.splits prod.splits)
  from Cons.prems have "q \<noteq> x" and "q \<notin> set xs"
    by auto
  with a b Cons.IH show ?case
    by (metis closedPath_other)
qed

lemma closedPaths_entry:
  "distinct xs \<Longrightarrow> closedPaths nd c xs ps = Inr (ps', ns) \<Longrightarrow> q \<in> set xs \<Longrightarrow>
   closed_entry c (ps q) (ps' q)"
proof (induction xs arbitrary: ps ns)
  case Nil
  then show ?case by simp
next
  case (Cons x xs)
  from Cons.prems obtain ps1 ns1 ns2 where
    a: "closedPath nd c x ps = Inr (ps1, ns1)" and b: "closedPaths nd c xs ps1 = Inr (ps', ns2)"
    by (auto split: sum.splits prod.splits)
  show ?case
  proof (cases "q = x")
    case True
    with Cons.prems have "q \<notin> set xs"
      by simp
    with b have "ps' q = ps1 q"
      by (rule closedPaths_other)
    with closedPath_entry [OF a] True show ?thesis
      by simp
  next
    case False
    with Cons.prems have "q \<in> set xs" and "distinct xs"
      by simp_all
    with b Cons.IH have "closed_entry c (ps1 q) (ps' q)"
      by blast
    with closedPath_other [OF a False] show ?thesis
      by simp
  qed
qed

lemma onClientClosed_known:
  assumes "onClientClosed nd s c = Inr (s', ns)" and "clients s c = Some clientInfo"
  shows "clients s' = (clients s)(c := None)"
    and "maxClientsPerPath s' = maxClientsPerPath s"
    and "maxPathsCount s' = maxPathsCount s"
    and "q |\<in>| refPaths clientInfo \<Longrightarrow> closed_entry c (paths s q) (paths s' q)"
    and "q |\<notin>| refPaths clientInfo \<Longrightarrow> paths s' q = paths s q"
proof -
  from assms obtain ps where
    r: "closedPaths nd c (sorted_list_of_fset (refPaths clientInfo)) (paths s) = Inr (ps, ns)"
    and s': "s' = s\<lparr>clients := (clients s)(c := None), paths := ps\<rparr>"
    by (auto simp: onClientClosed_def split: sum.splits prod.splits)
  from s' show "clients s' = (clients s)(c := None)"
    and "maxClientsPerPath s' = maxClientsPerPath s" and "maxPathsCount s' = maxPathsCount s"
    by simp_all
  show "closed_entry c (paths s q) (paths s' q)" if "q |\<in>| refPaths clientInfo"
    using closedPaths_entry [OF distinct_sorted_list_of_fset r, of q] that s' by simp
  show "paths s' q = paths s q" if "q |\<notin>| refPaths clientInfo"
    using closedPaths_other [OF r, of q] that s' by simp
qed

lemma onClientClosed_paths:
  assumes "onClientClosed nd s c = Inr (s', ns)"
  shows "q |\<notin>| ref_paths s c \<Longrightarrow> paths s' q = paths s q"
    and "q |\<in>| ref_paths s c \<Longrightarrow> closed_entry c (paths s q) (paths s' q)"
proof -
  show "paths s' q = paths s q" if "q |\<notin>| ref_paths s c"
  proof (cases "clients s c")
    case None
    with assms show ?thesis
      by (simp add: onClientClosed_def)
  next
    case (Some clientInfo)
    from onClientClosed_known(5) [OF assms Some, of q] Some that show ?thesis
      by (simp add: ref_paths_def)
  qed
  show "closed_entry c (paths s q) (paths s' q)" if "q |\<in>| ref_paths s c"
  proof (cases "clients s c")
    case None
    with that show ?thesis
      by (simp add: ref_paths_def)
  next
    case (Some clientInfo)
    from onClientClosed_known(4) [OF assms Some, of q] Some that show ?thesis
      by (simp add: ref_paths_def)
  qed
qed

lemma closed_entry_views:
  assumes "closed_entry c (paths s p) (paths s' p)"
  shows "ref_clients s' p = ref_clients s p |-| {|c|}"
    and "(paths s' p = None) = (ref_clients s p |-| {|c|} = {||})"
    and "paths s' p \<noteq> None \<Longrightarrow>
           record_client s' p = (if record_client s p = Some c then None else record_client s p)"
    and "paths s' p \<noteq> None \<Longrightarrow>
           record_session_id s' p =
             (if record_client s p = Some c then '''' else record_session_id s p)"
    and "play_count s' p = play_count s p \<or> play_count s' p = 0"
proof -
  have "ref_clients s' p = ref_clients s p |-| {|c|} \<and>
    (paths s' p = None) = (ref_clients s p |-| {|c|} = {||}) \<and>
    (paths s' p \<noteq> None \<longrightarrow>
       record_client s' p = (if record_client s p = Some c then None else record_client s p) \<and>
       record_session_id s' p = (if record_client s p = Some c then '''' else record_session_id s p)) \<and>
    (play_count s' p = play_count s p \<or> play_count s' p = 0)"
  proof (cases "paths s p")
    case None
    with assms have "paths s' p = None"
      by (simp add: closed_entry_def)
    with None show ?thesis
      by (simp add: views)
  next
    case (Some pathInfo)
    show ?thesis
    proof (cases "refClients pathInfo |-| {|c|} = {||}")
      case True
      with assms Some have "paths s' p = None"
        by (simp add: closed_entry_def)
      with Some True show ?thesis
        by (simp add: views del: fminus_eq_fempty_iff)
    next
      case False
      with assms Some obtain pathInfo' where
        "paths s' p = Some pathInfo'" "refClients pathInfo' = refClients pathInfo |-| {|c|}"
        "if recordClient pathInfo = Some c
         then recordClient pathInfo' = None \<and> recordSessionId pathInfo' = ''''
         else recordClient pathInfo' = recordClient pathInfo \<and>
              recordSessionId pathInfo' = recordSessionId pathInfo"
        "playCount pathInfo' = playCount pathInfo \<or>
         playCount pathInfo = 1 \<and> playCount pathInfo' = 0"
        unfolding closed_entry_def by (simp del: fminus_eq_fempty_iff) blast
      with Some False show ?thesis
        by (auto simp add: views simp del: fminus_eq_fempty_iff split: if_splits)
    qed
  qed
  then show "ref_clients s' p = ref_clients s p |-| {|c|}"
    and "(paths s' p = None) = (ref_clients s p |-| {|c|} = {||})"
    and "paths s' p \<noteq> None \<Longrightarrow>
           record_client s' p = (if record_client s p = Some c then None else record_client s p)"
    and "paths s' p \<noteq> None \<Longrightarrow>
           record_session_id s' p =
             (if record_client s p = Some c then '''' else record_session_id s p)"
    and "play_count s' p = play_count s p \<or> play_count s' p = 0"
    by simp_all
qed

lemma onClientClosed_ref_paths:
  assumes "onClientClosed nd s c = Inr (s', ns)"
  shows "ref_paths s' c' = (if c' = c then {||} else ref_paths s c')"
    and "maxClientsPerPath s' = maxClientsPerPath s"
proof -
  show "ref_paths s' c' = (if c' = c then {||} else ref_paths s c')"
  proof (cases "clients s c")
    case None
    with assms show ?thesis
      by (auto simp: onClientClosed_def ref_paths_def)
  next
    case (Some clientInfo)
    from onClientClosed_known(1) [OF assms Some] show ?thesis
      by (simp add: ref_paths_def)
  qed
  show "maxClientsPerPath s' = maxClientsPerPath s"
  proof (cases "clients s c")
    case None
    with assms show ?thesis
      by (auto simp: onClientClosed_def)
  next
    case (Some clientInfo)
    from onClientClosed_known(2) [OF assms Some] show ?thesis .
  qed
qed

lemma onClientClosed_views:
  assumes run: "onClientClosed nd s c = Inr (s', ns)" and inv: "store_inv s"
  shows "ref_clients s' p = ref_clients s p |-| {|c|}"
    and "(paths s' p = None) = (ref_clients s p |-| {|c|} = {||})"
    and "record_client s' p = (if record_client s p = Some c then None else record_client s p)"
    and "record_session_id s' p =
           (if record_client s p = Some c then '''' else record_session_id s p)"
proof -
  from inv have agree: "p |\<in>| ref_paths s c \<longleftrightarrow> c |\<in>| ref_clients s p"
    by (simp add: store_inv_def views_agree_def)
  from inv have entry: "paths s p \<noteq> None \<longleftrightarrow> ref_clients s p \<noteq> {||}"
    by (simp add: store_inv_def entries_referenced_def)
  from inv have pair: "record_client s p = None \<Longrightarrow> record_session_id s p = ''''"
    and member: "\<And>x. record_client s p = Some x \<Longrightarrow> x |\<in>| ref_clients s p"
    by (auto simp: store_inv_def recorder_known_def)
  from onClientClosed_paths [OF run, of p]
  consider (same) "paths s' p = paths s p" "p |\<notin>| ref_paths s c"
    | (closed) "p |\<in>| ref_paths s c" "closed_entry c (paths s p) (paths s' p)"
    by blast
  then have "ref_clients s' p = ref_clients s p |-| {|c|} \<and>
    (paths s' p = None) = (ref_clients s p |-| {|c|} = {||}) \<and>
    record_client s' p = (if record_client s p = Some c then None else record_client s p) \<and>
    record_session_id s' p = (if record_client s p = Some c then '''' else record_session_id s p)"
  proof cases
    case same
    from same(2) agree have n: "c |\<notin>| ref_clients s p"
      by simp
    then have m: "ref_clients s p |-| {|c|} = ref_clients s p"
      by auto
    from n member have r: "record_client s p \<noteq> Some c"
      by auto
    from same(1) have v: "ref_clients s' p = ref_clients s p" "record_client s' p = record_client s p"
      "record_session_id s' p = record_session_id s p"
      by (simp_all add: views)
    from entry have "(paths s p = None) = (ref_clients s p = {||})"
      by blast
    with same(1) m r v show ?thesis
      by simp
  next
    case closed
    note v = closed_entry_views [OF closed(2)]
    show ?thesis
    proof (cases "paths s' p")
      case None
      with v(2) have e: "ref_clients s p |-| {|c|} = {||}"
        by simp
      from None have z: "record_client s' p = None" "record_session_id s' p = ''''"
        by (simp_all add: views)
      have "record_client s p = None \<or> record_client s p = Some c"
      proof (cases "record_client s p")
        case None
        then show ?thesis by simp
      next
        case (Some x)
        with member have "x |\<in>| ref_clients s p"
          by simp
        with e have "x = c"
          by auto
        with Some show ?thesis by simp
      qed
      with pair z v(1) None e show ?thesis
        by auto
    next
      case (Some a)
      with v show ?thesis
        by simp
    qed
  qed
  then show "ref_clients s' p = ref_clients s p |-| {|c|}"
    and "(paths s' p = None) = (ref_clients s p |-| {|c|} = {||})"
    and "record_client s' p = (if record_client s p = Some c then None else record_client s p)"
    and "record_session_id s' p =
           (if record_client s p = Some c then '''' else record_session_id s p)"
    by simp_all
qed

subsection \<open>The effect of the handlers on the readings of the store\<close>

lemma onPlay_views:
  "ref_paths (fst (onPlay s c ctx sid)) c' =
     (if c' = c then finsert (abspath (uri ctx)) (ref_paths s c') else ref_paths s c')"
  "ref_clients (fst (onPlay s c ctx sid)) p =
     (if p = abspath (uri ctx) then finsert c (ref_clients s p) else ref_clients s p)"
  "(paths (fst (onPlay s c ctx sid)) p = None) = (p \<noteq> abspath (uri ctx) \<and> paths s p = None)"
  "record_client (fst (onPlay s c ctx sid)) p = record_client s p"
  "record_session_id (fst (onPlay s c ctx sid)) p = record_session_id s p"
  "play_count (fst (onPlay s c ctx sid)) p =
     (if p = abspath (uri ctx) then play_count s p + 1 else play_count s p)"
  "maxClientsPerPath (fst (onPlay s c ctx sid)) = maxClientsPerPath s"
  by (simp_all add: onPlay_def registerPath_def Let_def views split: option.splits)

lemma onRecord_views:
  "ref_paths (fst (onRecord s c ctx sid)) c' =
     (if c' = c then finsert (abspath (uri ctx)) (ref_paths s c') else ref_paths s c')"
  "ref_clients (fst (onRecord s c ctx sid)) p =
     (if p = abspath (uri ctx) then finsert c (ref_clients s p) else ref_clients s p)"
  "(paths (fst (onRecord s c ctx sid)) p = None) = (p \<noteq> abspath (uri ctx) \<and> paths s p = None)"
  "record_client (fst (onRecord s c ctx sid)) p =
     (if p = abspath (uri ctx) \<and> record_client s p = None \<and> record_session_id s p = ''''
      then Some c else record_client s p)"
  "record_session_id (fst (onRecord s c ctx sid)) p =
     (if p = abspath (uri ctx) \<and> record_client s p = None \<and> record_session_id s p = ''''
      then sid else record_session_id s p)"
  "play_count (fst (onRecord s c ctx sid)) p = play_count s p"
  "maxClientsPerPath (fst (onRecord s c ctx sid)) = maxClientsPerPath s"
  by (auto simp: onRecord_def registerPath_def Let_def views split: option.splits)

lemma onTeardown_views:
  "clients (fst (onTeardown s c url sid)) = clients s"
  "ref_paths (fst (onTeardown s c url sid)) c' = ref_paths s c'"
  "ref_clients (fst (onTeardown s c url sid)) p = ref_clients s p"
  "(paths (fst (onTeardown s c url sid)) p = None) = (paths s p = None)"
  "maxClientsPerPath (fst (onTeardown s c url sid)) = maxClientsPerPath s"
  by (simp_all add: onTeardown_def Let_def views split: option.splits)

lemma onTeardown_recorder:
  "record_client (fst (onTeardown s c url sid)) p = record_client s p \<and>
   record_session_id (fst (onTeardown s c url sid)) p = record_session_id s p \<or>
   record_client (fst (onTeardown s c url sid)) p = None \<and>
   record_session_id (fst (onTeardown s c url sid)) p = ''''"
  by (simp add: onTeardown_def Let_def views split: option.splits)

lemma onTeardown_play_count:
  "play_count (fst (onTeardown s c url sid)) p \<le> play_count s p"
proof -
  have w: "x - 1 \<le> x" if "0 < x" for x :: "32 word"
    using that by unat_arith
  show ?thesis
    by (simp add: onTeardown_def Let_def play_count_def w split: option.splits)
qed

lemma onClientClosed_play_count:
  assumes "onClientClosed nd s c = Inr (s', ns)"
  shows "play_count s' p = play_count s p \<or> play_count s' p = 0"
proof (cases "p |\<in>| ref_paths s c")
  case True
  from closed_entry_views(5) [OF onClientClosed_paths(2) [OF assms True]] show ?thesis .
next
  case False
  from onClientClosed_paths(1) [OF assms False] show ?thesis
    by (simp add: play_count_def)
qed

subsection \<open>The properties of the store are kept by every handler\<close>

lemma inv_initial: "store_inv (initial mp mc)"
  by (simp add: store_inv_def views_agree_def recorder_known_def entries_referenced_def
      views initial_def)

lemma inv_onPlay:
  assumes "store_inv s"
  shows "store_inv (fst (onPlay s c ctx sid))"
proof -
  from assms have "views_agree (fst (onPlay s c ctx sid))"
    by (auto simp: store_inv_def views_agree_def onPlay_views)
  moreover from assms have "entries_referenced (fst (onPlay s c ctx sid))"
    by (auto simp: store_inv_def entries_referenced_def onPlay_views)
  moreover from assms have "recorder_known (fst (onPlay s c ctx sid))"
    by (auto simp: store_inv_def recorder_known_def onPlay_views)
  ultimately show ?thesis
    by (simp add: store_inv_def)
qed

lemma inv_onRecord:
  assumes "store_inv s"
  shows "store_inv (fst (onRecord s c ctx sid))"
proof -
  from assms have "views_agree (fst (onRecord s c ctx sid))"
    by (auto simp: store_inv_def views_agree_def onRecord_views)
  moreover from assms have "entries_referenced (fst (onRecord s c ctx sid))"
    by (auto simp: store_inv_def entries_referenced_def onRecord_views)
  moreover from assms have "recorder_known (fst (onRecord s c ctx sid))"
    by (auto simp: store_inv_def recorder_known_def onRecord_views)
  ultimately show ?thesis
    by (simp add: store_inv_def)
qed

lemma inv_onTeardown:
  assumes "store_inv s"
  shows "store_inv (fst (onTeardown s c url sid))"
proof -
  from assms have "views_agree (fst (onTeardown s c url sid))"
    by (simp add: store_inv_def views_agree_def onTeardown_views)
  moreover from assms have "entries_referenced (fst (onTeardown s c url sid))"
    by (simp add: store_inv_def entries_referenced_def onTeardown_views)
  moreover have "recorder_known (fst (onTeardown s c url sid))"
    unfolding recorder_known_def
  proof (intro allI)
    fix p
    from assms have "(record_session_id s p \<noteq> '''' \<longrightarrow> record_client s p \<noteq> None) \<and>
          (\<forall>c. record_client s p = Some c \<longrightarrow> c |\<in>| ref_clients s p)"
      by (simp add: store_inv_def recorder_known_def)
    with onTeardown_recorder [of s c url sid p]
    show "(record_session_id (fst (onTeardown s c url sid)) p \<noteq> '''' \<longrightarrow>
           record_client (fst (onTeardown s c url sid)) p \<noteq> None) \<and>
          (\<forall>c'. record_client (fst (onTeardown s c url sid)) p = Some c' \<longrightarrow>
                c' |\<in>| ref_clients (fst (onTeardown s c url sid)) p)"
      by (auto simp: onTeardown_views)
  qed
  ultimately show ?thesis
    by (simp add: store_inv_def)
qed

lemma inv_onClientClosed:
  assumes run: "onClientClosed nd s c = Inr (s', ns)" and inv: "store_inv s"
  shows "store_inv s'"
proof -
  note v = onClientClosed_views [OF run inv] onClientClosed_ref_paths(1) [OF run]
  from inv have a: "\<And>c p. p |\<in>| ref_paths s c \<longleftrightarrow> c |\<in>| ref_clients s p"
    by (simp add: store_inv_def views_agree_def)
  from inv have r: "\<And>p. record_session_id s p \<noteq> '''' \<Longrightarrow> record_client s p \<noteq> None"
    and m: "\<And>p x. record_client s p = Some x \<Longrightarrow> x |\<in>| ref_clients s p"
    by (auto simp: store_inv_def recorder_known_def)
  have "views_agree s'"
    unfolding views_agree_def
  proof (intro allI)
    fix c' p
    show "p |\<in>| ref_paths s' c' \<longleftrightarrow> c' |\<in>| ref_clients s' p"
      using a [of p c'] by (simp add: v)
  qed
  moreover have "entries_referenced s'"
    by (simp add: entries_referenced_def v del: fminus_eq_fempty_iff)
  moreover have "recorder_known s'"
    unfolding recorder_known_def
  proof (intro allI conjI impI)
    fix p
    assume "record_session_id s' p \<noteq> ''''"
    then show "record_client s' p \<noteq> None"
      using r [of p] by (simp add: v split: if_splits)
  next
    fix p x
    assume "record_client s' p = Some x"
    then have "record_client s p = Some x" and "x \<noteq> c"
      by (auto simp: v split: if_splits)
    with m [of p x] show "x |\<in>| ref_clients s' p"
      by (simp add: v)
  qed
  ultimately show ?thesis
    by (simp add: store_inv_def)
qed

lemma inv_dispatch:
  assumes "dispatch nd s e = Inr (s', ns)" and "store_inv s"
  shows "store_inv s'"
proof (cases e)
  case (Play c ctx sid)
  with assms inv_onPlay [of s c ctx sid] show ?thesis by auto
next
  case (Record c ctx sid)
  with assms inv_onRecord [of s c ctx sid] show ?thesis by auto
next
  case (Teardown c url sid)
  with assms inv_onTeardown [of s c url sid] show ?thesis by auto
next
  case (ClientClosed c)
  with assms inv_onClientClosed [of nd s c s' ns] show ?thesis by auto
qed (use assms in auto)

lemma inv_run:
  "run nd s es = Inr (s', ns) \<Longrightarrow> store_inv s \<Longrightarrow> store_inv s'"
proof (induction es arbitrary: s ns)
  case Nil
  then show ?case by simp
next
  case (Cons e es)
  from Cons.prems(1) obtain s1 ns1 ns2 where
    a: "dispatch nd s e = Inr (s1, ns1)" and b: "run nd s1 es = Inr (s', ns2)"
    by (auto split: sum.splits prod.splits)
  from a Cons.prems have "store_inv s1"
    by (auto intro: inv_dispatch)
  with b Cons.IH Cons.prems show ?case
    by auto
qed







text \<open>In a state reached from the empty store the test of \<^verbatim>\<open>isRecording\<close> and \<^verbatim>\<open>onRecord\<close>,
  \<^verbatim>\<open>recordClient || !recordSessionId.empty()\<close>, is the test that \<^verbatim>\<open>recordClient\<close> is set.\<close>

lemma reached_recorder_test:
  assumes "run nd (initial mp mc) es = Inr (s, ns)" and "paths s p = Some pathInfo"
  shows "(recordClient pathInfo \<noteq> None \<or> recordSessionId pathInfo \<noteq> '''') =
         (recordClient pathInfo \<noteq> None)"
proof -
  from inv_run [OF assms(1) inv_initial]
  have "record_session_id s p \<noteq> '''' \<longrightarrow> record_client s p \<noteq> None"
    by (simp add: store_inv_def recorder_known_def)
  with assms(2) show ?thesis
    by (auto simp: views)
qed

subsection \<open>The player limit is kept by admitted sequences\<close>

lemma beforePlay_ticket:
  "0 < maxClientsPerPath s \<Longrightarrow>
   ticket s (if beforePlay s c url sid = GST_RTSP_STS_OK then Some (abspath url) else None)"
  by (auto simp: ticket_def beforePlay_def Let_def play_count_def not_le split: option.splits)

lemma bounded_onPlay:
  assumes "0 < maxClientsPerPath s" and "bounded s" and "ticket s (Some (abspath (uri ctx)))"
  shows "bounded (fst (onPlay s c ctx sid))"
  unfolding bounded_def
proof
  fix p
  have w1: "x + 1 \<le> m" if "x < m - 1" and "0 < m" for x m :: "32 word"
    using that by unat_arith
  have w2: "1 \<le> m" if "0 < m" for m :: "32 word"
    using that by unat_arith
  show "play_count (fst (onPlay s c ctx sid)) p \<le> maxClientsPerPath (fst (onPlay s c ctx sid))"
  proof (cases "p = abspath (uri ctx)")
    case False
    with assms(2) show ?thesis
      by (simp add: onPlay_views bounded_def)
  next
    case True
    from assms(3) consider "paths s p = None" | "play_count s p < maxClientsPerPath s - 1"
      by (auto simp: ticket_def True)
    then show ?thesis
    proof cases
      case 1
      then have "play_count s p = 0"
        by (simp add: play_count_def)
      with True w2 [OF assms(1)] show ?thesis
        by (simp add: onPlay_views)
    next
      case 2
      with True w1 [OF _ assms(1)] show ?thesis
        by (simp add: onPlay_views)
    qed
  qed
qed

lemma bounded_dispatch:
  assumes "0 < maxClientsPerPath s" and "bounded s" and "ticket s ok"
    and "case e of Play c ctx sid \<Rightarrow> ok = Some (abspath (uri ctx)) | _ \<Rightarrow> True"
    and "dispatch nd s e = Inr (s1, ns1)"
  shows "bounded s1 \<and> maxClientsPerPath s1 = maxClientsPerPath s"
proof (cases e)
  case (Play c ctx sid)
  with assms(5) have s1: "s1 = fst (onPlay s c ctx sid)"
    by auto
  from Play assms(3,4) have "ticket s (Some (abspath (uri ctx)))"
    by simp
  from bounded_onPlay [OF assms(1,2) this, of c sid] show ?thesis
    by (simp add: s1 onPlay_views)
next
  case (Record c ctx sid)
  with assms(5) have s1: "s1 = fst (onRecord s c ctx sid)"
    by auto
  from assms(2) show ?thesis
    by (simp add: s1 bounded_def onRecord_views)
next
  case (Teardown c url sid)
  with assms(5) have s1: "s1 = fst (onTeardown s c url sid)"
    by auto
  have "play_count (fst (onTeardown s c url sid)) p \<le> maxClientsPerPath s" for p
    using onTeardown_play_count [of s c url sid p] assms(2)
    by (metis bounded_def order_trans)
  then show ?thesis
    by (simp add: s1 bounded_def onTeardown_views)
next
  case (ClientClosed c)
  with assms have r: "onClientClosed nd s c = Inr (s1, ns1)"
    by simp
  have "play_count s1 p \<le> maxClientsPerPath s" for p
    using onClientClosed_play_count [OF r, of p] assms(2)
    by (auto simp: bounded_def)
  with onClientClosed_ref_paths(2) [OF r] show ?thesis
    by (simp add: bounded_def)
qed (use assms in auto)

lemma bounded_run:
  "0 < maxClientsPerPath s \<Longrightarrow> bounded s \<Longrightarrow> ticket s ok \<Longrightarrow> admitted nd s ok es \<Longrightarrow>
   run nd s es = Inr (s', ns) \<Longrightarrow> bounded s' \<and> maxClientsPerPath s' = maxClientsPerPath s"
proof (induction es arbitrary: s ok ns)
  case Nil
  then show ?case by simp
next
  case (Cons e es)
  from Cons.prems(5) obtain s1 ns1 ns2 where
    a: "dispatch nd s e = Inr (s1, ns1)" and b: "run nd s1 es = Inr (s', ns2)"
    by (auto split: sum.splits prod.splits)
  define ok1 where "ok1 =
    (case e of
       PrePlay client url sessionId \<Rightarrow>
         if beforePlay s client url sessionId = GST_RTSP_STS_OK then Some (abspath url) else None
     | _ \<Rightarrow> None)"
  from Cons.prems(4) a have
    h: "case e of Play c ctx sid \<Rightarrow> ok = Some (abspath (uri ctx)) | _ \<Rightarrow> True"
    and adm: "admitted nd s1 ok1 es"
    by (simp_all add: ok1_def)
  from bounded_dispatch [OF Cons.prems(1,2,3) h a]
  have b1: "bounded s1" and m1: "maxClientsPerPath s1 = maxClientsPerPath s"
    by simp_all
  have t1: "ticket s1 ok1"
  proof (cases e)
    case (PrePlay c url sid)
    with a have "s1 = s"
      by simp
    with PrePlay beforePlay_ticket [OF Cons.prems(1), of c url sid] show ?thesis
      by (simp add: ok1_def)
  qed (simp_all add: ok1_def ticket_def)
  from Cons.prems(1) m1 have "0 < maxClientsPerPath s1"
    by simp
  from Cons.IH [OF this b1 t1 adm b] m1 show ?case
    by simp
qed

lemma admitted_prefix:
  "admitted nd s ok (es @ rest) \<Longrightarrow> admitted nd s ok es"
proof (induction es arbitrary: s ok)
  case Nil
  then show ?case by simp
next
  case (Cons e es)
  show ?case
  proof (cases "dispatch nd s e")
    case (Inl x)
    with Cons.prems show ?thesis
      by simp
  next
    case (Inr r)
    obtain s1 ns1 where r: "r = (s1, ns1)"
      by (cases r)
    with Inr Cons.prems Cons.IH show ?thesis
      by simp
  qed
qed

section \<open>Properties of sequences of events\<close>

subsection \<open>The properties of the store\<close>




subsection \<open>RECORD\<close>

text \<open>
  Claim C5: for every state that the server reaches and every
  \<^verbatim>\<open>onRecord(client, ctx, sessionId)\<close> on the path of the context, the reference between
  client and path is registered on both sides; then, when \<^verbatim>\<open>recordClient\<close> of the path is
  already set, both recorder fields are left as they are and nothing is emitted; otherwise
  \<^verbatim>\<open>recordClient\<close> becomes the client, \<^verbatim>\<open>recordSessionId\<close> the session id, and
  \<^verbatim>\<open>recorderConnected(user(ctx), path)\<close> is emitted exactly once. The test in the code is
  \<^verbatim>\<open>recordClient || !recordSessionId.empty()\<close>; in a state reached from the empty store, by
  any events and in both assertion modes, that is the test that \<^verbatim>\<open>recordClient\<close> is set.
  The registration and the frame hold for every state.
\<close>

theorem onRecord_effect:
  assumes "onRecord s client ctx sessionId = (s', ns)" and "path = abspath (uri ctx)"
  shows "ref_paths s' client = finsert path (ref_paths s client) \<and>
         ref_clients s' path = finsert client (ref_clients s path) \<and>
         clients s' client \<noteq> None \<and> paths s' path \<noteq> None \<and>
         play_count s' path = play_count s path \<and>
         (\<forall>c. c \<noteq> client \<longrightarrow> clients s' c = clients s c) \<and>
         (\<forall>p. p \<noteq> path \<longrightarrow> paths s' p = paths s p) \<and>
         maxClientsPerPath s' = maxClientsPerPath s \<and> maxPathsCount s' = maxPathsCount s \<and>
         (run ndebug (initial maxPaths maxClients) es = Inr (s, ns0) \<longrightarrow>
            (if record_client s path \<noteq> None
             then record_client s' path = record_client s path \<and>
                  record_session_id s' path = record_session_id s path \<and> ns = []
             else record_client s' path = Some client \<and>
                  record_session_id s' path = sessionId \<and>
                  ns = [RecorderConnected (user ctx) path]))"
proof -
  have frame: "ref_paths s' client = finsert path (ref_paths s client) \<and>
         ref_clients s' path = finsert client (ref_clients s path) \<and>
         clients s' client \<noteq> None \<and> paths s' path \<noteq> None \<and>
         play_count s' path = play_count s path \<and>
         (\<forall>c. c \<noteq> client \<longrightarrow> clients s' c = clients s c) \<and>
         (\<forall>p. p \<noteq> path \<longrightarrow> paths s' p = paths s p) \<and>
         maxClientsPerPath s' = maxClientsPerPath s \<and> maxPathsCount s' = maxPathsCount s"
    using assms
    by (auto simp: onRecord_def registerPath_def Let_def views split: option.splits if_splits)
  have code: "if record_client s path \<noteq> None \<or> record_session_id s path \<noteq> ''''
          then record_client s' path = record_client s path \<and>
               record_session_id s' path = record_session_id s path \<and> ns = []
          else record_client s' path = Some client \<and> record_session_id s' path = sessionId \<and>
               ns = [RecorderConnected (user ctx) path]"
    using assms
    by (auto simp: onRecord_def registerPath_def Let_def views split: option.splits if_splits)
  have "if record_client s path \<noteq> None
        then record_client s' path = record_client s path \<and>
             record_session_id s' path = record_session_id s path \<and> ns = []
        else record_client s' path = Some client \<and> record_session_id s' path = sessionId \<and>
             ns = [RecorderConnected (user ctx) path]"
    if reached: "run ndebug (initial maxPaths maxClients) es = Inr (s, ns0)"
  proof -
    from inv_run [OF reached inv_initial]
    have "record_session_id s path \<noteq> '''' \<longrightarrow> record_client s path \<noteq> None"
      by (simp add: store_inv_def recorder_known_def)
    then have "(record_client s path \<noteq> None \<or> record_session_id s path \<noteq> '''') =
               (record_client s path \<noteq> None)"
      by blast
    with code show ?thesis
      by (simp only:)
  qed
  with frame show ?thesis
    by blast
qed

theorem onRecord_effect_witness:
  "run False (initial 0 0) [Record 1 ctx_a ''s1''] =
     Inr (recording, [RecorderConnected '''' ''/a'']) \<and>
   record_client recording ''/a'' = Some 1 \<and>
   record_client (fst (onRecord recording 2 ctx_a ''s2'')) ''/a'' = Some 1 \<and>
   record_session_id (fst (onRecord recording 2 ctx_a ''s2'')) ''/a'' = ''s1'' \<and>
   snd (onRecord recording 2 ctx_a ''s2'') = [] \<and>
   ref_clients (fst (onRecord recording 2 ctx_a ''s2'')) ''/a'' = {|2, 1|} \<and>
   run False (initial 0 0) [] = Inr (initial 0 0, []) \<and>
   record_client (initial 0 0) ''/a'' = None \<and>
   record_client (fst (onRecord (initial 0 0) 1 ctx_a ''s1'')) ''/a'' = Some 1 \<and>
   snd (onRecord (initial 0 0) 1 ctx_a ''s1'') = [RecorderConnected '''' ''/a'']"
proof -
  have r: "run False (initial 0 0) [Record 1 ctx_a ''s1''] =
      Inr (recording, [RecorderConnected '''' ''/a''])"
    by (simp add: recording_def concrete)
  have r0: "run False (initial 0 0) [] = Inr (initial 0 0, [])"
    by simp
  have p: "''/a'' = abspath (uri ctx_a)"
    by (simp add: ctx_a_def url_a_def)
  have u: "user ctx_a = ''''"
    by (simp add: user_def ctx_a_def)
  have c: "record_client recording ''/a'' = Some 1" "record_session_id recording ''/a'' = ''s1''"
    "ref_clients recording ''/a'' = {|1|}"
    by (simp_all add: recording_def views)
  have c0: "record_client (initial 0 0) ''/a'' = None"
    by (simp add: initial_def views)
  obtain s' ns where h: "onRecord recording 2 ctx_a ''s2'' = (s', ns)"
    by (cases "onRecord recording 2 ctx_a ''s2''")
  obtain s0' ns0' where h0: "onRecord (initial 0 0) 1 ctx_a ''s1'' = (s0', ns0')"
    by (cases "onRecord (initial 0 0) 1 ctx_a ''s1''")
  from onRecord_effect [OF h p, of False 0 0 "[Record 1 ctx_a ''s1'']"] r c
  have "record_client s' ''/a'' = Some 1" and "record_session_id s' ''/a'' = ''s1''"
    and "ns = []" and "ref_clients s' ''/a'' = {|2, 1|}"
    by simp_all
  moreover from onRecord_effect [OF h0 p, of False 0 0 "[]"] r0 c0 u
  have "record_client s0' ''/a'' = Some 1" and "ns0' = [RecorderConnected '''' ''/a'']"
    by simp_all
  ultimately show ?thesis
    using r r0 c c0 h h0 by simp
qed

subsection \<open>The admission check of RECORD\<close>

text \<open>
  Claim C9: for every state that the server reaches, \<^verbatim>\<open>beforeRecord\<close> returns
  \<^verbatim>\<open>GST_RTSP_STS_SERVICE_UNAVAILABLE\<close> exactly when the path has an entry whose
  \<^verbatim>\<open>recordClient\<close> is set, which is when \<^verbatim>\<open>isRecording\<close> is true, and \<^verbatim>\<open>GST_RTSP_STS_OK\<close>
  otherwise. In every state, \<^verbatim>\<open>beforeRecord\<close> and \<^verbatim>\<open>isRecording\<close> leave the store as it is,
  both maps, and emit no notification. The test in \<^verbatim>\<open>isRecording\<close> is
  \<^verbatim>\<open>recordClient || !recordSessionId.empty()\<close>; in a state reached from the empty store, by
  any events and in both assertion modes, that is the test that \<^verbatim>\<open>recordClient\<close> is set.
\<close>

theorem beforeRecord_status:
  "fst (beforeRecord s client url sessionId) = s \<and>
   fst (snd (beforeRecord s client url sessionId)) = [] \<and>
   fst (isRecording s client path) = s \<and>
   fst (snd (isRecording s client path)) = [] \<and>
   (run ndebug (initial maxPaths maxClients) es = Inr (s, ns0) \<longrightarrow>
      snd (snd (beforeRecord s client url sessionId)) =
        (if \<exists>pathInfo. paths s (abspath url) = Some pathInfo \<and> recordClient pathInfo \<noteq> None
         then GST_RTSP_STS_SERVICE_UNAVAILABLE else GST_RTSP_STS_OK) \<and>
      snd (snd (isRecording s client path)) =
        (\<exists>pathInfo. paths s path = Some pathInfo \<and> recordClient pathInfo \<noteq> None))"
proof -
  have pure: "fst (isRecording s client q) = s \<and> fst (snd (isRecording s client q)) = []" for q
    by (simp add: isRecording_def split: option.splits)
  have pure': "fst (beforeRecord s client url sessionId) = s \<and>
      fst (snd (beforeRecord s client url sessionId)) = []"
    using pure [of "abspath url"]
    by (simp add: beforeRecord_def Let_def split_beta)
  have test: "snd (snd (isRecording s client q)) =
      (\<exists>pathInfo. paths s q = Some pathInfo \<and> recordClient pathInfo \<noteq> None)"
    if reached: "run ndebug (initial maxPaths maxClients) es = Inr (s, ns0)" for q
  proof (cases "paths s q")
    case None
    then show ?thesis
      by (simp add: isRecording_def)
  next
    case (Some pathInfo)
    with reached_recorder_test [OF reached Some] show ?thesis
      by (simp add: isRecording_def)
  qed
  have "snd (snd (beforeRecord s client url sessionId)) =
        (if \<exists>pathInfo. paths s (abspath url) = Some pathInfo \<and> recordClient pathInfo \<noteq> None
         then GST_RTSP_STS_SERVICE_UNAVAILABLE else GST_RTSP_STS_OK)"
    if reached: "run ndebug (initial maxPaths maxClients) es = Inr (s, ns0)"
    using test [OF reached, of "abspath url"]
    by (simp add: beforeRecord_def Let_def split_beta)
  with pure [of path] pure' test [of path] show ?thesis
    by blast
qed

theorem beforeRecord_status_witness:
  "run False (initial 0 0) [Record 1 ctx_a ''s1''] =
     Inr (recording, [RecorderConnected '''' ''/a'']) \<and>
   record_client recording ''/a'' = Some 1 \<and>
   beforeRecord recording 2 url_a ''s2'' = (recording, [], GST_RTSP_STS_SERVICE_UNAVAILABLE) \<and>
   run False (initial 0 0) [] = Inr (initial 0 0, []) \<and>
   beforeRecord (initial 0 0) 2 url_a ''s2'' = (initial 0 0, [], GST_RTSP_STS_OK)"
proof -
  have r: "run False (initial 0 0) [Record 1 ctx_a ''s1''] =
      Inr (recording, [RecorderConnected '''' ''/a''])"
    by (simp add: recording_def concrete)
  have r0: "run False (initial 0 0) [] = Inr (initial 0 0, [])"
    by simp
  have c: "record_client recording ''/a'' = Some 1"
    by (simp add: recording_def views)
  have p: "paths recording (abspath url_a) =
      Some \<lparr>refClients = {|1|}, playCount = 0, recordClient = Some 1, recordSessionId = ''s1''\<rparr>"
    by (simp add: recording_def url_a_def)
  have q: "paths (initial 0 0) (abspath url_a) = None"
    by (simp add: initial_def)
  from beforeRecord_status
    [of recording 2 url_a "''s2''" "''/a''" False 0 0 "[Record 1 ctx_a ''s1'']"] r p
  have "beforeRecord recording 2 url_a ''s2'' = (recording, [], GST_RTSP_STS_SERVICE_UNAVAILABLE)"
    by (simp add: prod_eq_iff)
  moreover from beforeRecord_status [of "initial 0 0" 2 url_a "''s2''" "''/a''" False 0 0 "[]"] r0 q
  have "beforeRecord (initial 0 0) 2 url_a ''s2'' = (initial 0 0, [], GST_RTSP_STS_OK)"
    by (simp add: prod_eq_iff)
  ultimately show ?thesis
    using r r0 c by simp
qed

subsection \<open>The player limit\<close>

text \<open>
  Claim C7: when \<^verbatim>\<open>maxClientsPerPath > 0\<close> and every \<^verbatim>\<open>onPlay\<close> comes right after a
  \<^verbatim>\<open>beforePlay\<close> check on the same path that returned \<^verbatim>\<open>GST_RTSP_STS_OK\<close>, every state
  reached from the empty store has \<^verbatim>\<open>playCount \<le> maxClientsPerPath\<close> on every path. The
  state is the one after any prefix \<open>es\<close> of such a sequence.
\<close>

theorem admitted_play_count_bounded:
  assumes "0 < maxClients"
    and "admitted ndebug (initial maxPaths maxClients) None (es @ rest)"
    and "run ndebug (initial maxPaths maxClients) es = Inr (s, ns)"
  shows "maxClientsPerPath s = maxClients \<and>
         (\<forall>p. play_count s p \<le> maxClients) \<and>
         (\<forall>p pathInfo. paths s p = Some pathInfo \<longrightarrow> playCount pathInfo \<le> maxClients)"
proof -
  have m: "maxClientsPerPath (initial maxPaths maxClients) = maxClients"
    by (simp add: initial_def)
  have b: "bounded (initial maxPaths maxClients)"
    by (simp add: bounded_def play_count_def initial_def)
  have t: "ticket (initial maxPaths maxClients) None"
    by (simp add: ticket_def)
  from assms(2) have a: "admitted ndebug (initial maxPaths maxClients) None es"
    by (rule admitted_prefix)
  from assms(1) m have "0 < maxClientsPerPath (initial maxPaths maxClients)"
    by simp
  from bounded_run [OF this b t a assms(3)] m
  have r: "maxClientsPerPath s = maxClients" "\<And>p. play_count s p \<le> maxClients"
    by (auto simp: bounded_def)
  have "playCount pathInfo \<le> maxClients" if "paths s p = Some pathInfo" for p pathInfo
    using r(2) [of p] that by (simp add: play_count_def)
  with r show ?thesis
    by blast
qed

theorem admitted_play_count_bounded_witness:
  "(0 :: 32 word) < 3 \<and> admitted False (initial 0 3) None (two_admitted @ []) \<and>
   run False (initial 0 3) two_admitted = Inr (two_playing, [FirstPlayerConnected '''' ''/a'']) \<and>
   paths two_playing ''/a'' \<noteq> None \<and>
   play_count two_playing ''/a'' = 2 \<and> play_count two_playing ''/a'' \<le> 3"
proof -
  have z: "(0 :: 32 word) < 3"
    by simp
  have a: "admitted False (initial 0 3) None (two_admitted @ [])"
    by (simp add: two_admitted_def concrete word_le_nat_alt)
  have r: "run False (initial 0 3) two_admitted =
      Inr (two_playing, [FirstPlayerConnected '''' ''/a''])"
    by (simp add: two_admitted_def two_playing_def concrete)
  have c: "paths two_playing ''/a'' \<noteq> None" "play_count two_playing ''/a'' = 2"
    by (simp_all add: two_playing_def play_count_def)
  from admitted_play_count_bounded [OF z a r] have "play_count two_playing ''/a'' \<le> 3"
    by blast
  with z a r c show ?thesis
    by blast
qed

subsection \<open>Connect and disconnect notifications do not balance\<close>

text \<open>
  Claim C6 says that over every sequence of events that starts and ends with the empty
  store, each path sees as many \<^verbatim>\<open>firstPlayerConnected\<close> as \<^verbatim>\<open>lastPlayerDisconnected\<close>, and
  as many \<^verbatim>\<open>recorderConnected\<close> as \<^verbatim>\<open>recorderDisconnected\<close>, in alternation. The code does
  not do this. One client plays and records the same path and then its connection closes:
  it was the only client of the path and the recorder, so \<^verbatim>\<open>onClientClosed\<close> takes the
  branch that clears the recorder, emits \<^verbatim>\<open>recorderDisconnected\<close> and erases the entry,
  and that branch never looks at \<^verbatim>\<open>playCount\<close>, which is 1. The store is empty again, one
  \<^verbatim>\<open>firstPlayerConnected\<close> was emitted and no \<^verbatim>\<open>lastPlayerDisconnected\<close>. No assertion fails
  on the way; the result is the same with \<^verbatim>\<open>NDEBUG\<close>.
\<close>

theorem both_roles_unbalanced:
  "run False (initial 0 0) both_roles_then_closed =
     Inr (initial 0 0,
          [FirstPlayerConnected '''' ''/a'', RecorderConnected '''' ''/a'',
           RecorderDisconnected ''/a'']) \<and>
   run True (initial 0 0) both_roles_then_closed =
     Inr (initial 0 0,
          [FirstPlayerConnected '''' ''/a'', RecorderConnected '''' ''/a'',
           RecorderDisconnected ''/a''])"
  by (simp add: both_roles_then_closed_def concrete)

subsection \<open>The assertion on playCount fails\<close>

text \<open>
  Claim C8 says that the assertions \<^verbatim>\<open>playCount == 0 || playCount == 1\<close> of
  \<^verbatim>\<open>onClientClosed\<close> never fail in a state reached from the empty store. They do. Two
  clients play the same path and both connections close without a teardown. Closing the
  first leaves \<^verbatim>\<open>playCount\<close> at 2, since another client remains and there is no recorder;
  closing the second empties \<^verbatim>\<open>refClients\<close> with no recorder set and reaches the first
  assertion with \<^verbatim>\<open>playCount = 2\<close>. With \<^verbatim>\<open>NDEBUG\<close> the entry is erased and
  \<^verbatim>\<open>lastPlayerDisconnected\<close> is never emitted.
\<close>

theorem two_players_assertion:
  "run False (initial 0 0) (butlast two_players_closed) =
     Inr (second_player_left, [FirstPlayerConnected '''' ''/a'']) \<and>
   ref_clients second_player_left ''/a'' = {|2|} \<and>
   record_client second_player_left ''/a'' = None \<and>
   play_count second_player_left ''/a'' = 2 \<and>
   onClientClosed False second_player_left 2 = Inl AssertionFailed \<and>
   run False (initial 0 0) two_players_closed = Inl AssertionFailed \<and>
   run True (initial 0 0) two_players_closed =
     Inr (initial 0 0, [FirstPlayerConnected '''' ''/a''])"
  by (simp add: two_players_closed_def second_player_left_def concrete views)

end
